theory Spec2Isabelle
  imports Main
begin

section \<open>Text and character classes\<close>

text \<open>
  \<^verbatim>\<open>scripts/patch_linux.py\<close> reads the bundle as a Python \<^verbatim>\<open>str\<close>: a sequence of Unicode code
  points.  A code point is an \<open>int\<close> here, a text a list of them, and \<open>cps\<close> turns a literal
  of the theory (ASCII) into a text.

  The classes \<^verbatim>\<open>\w\<close>, \<^verbatim>\<open>\d\<close> and \<^verbatim>\<open>\s\<close> of a \<^verbatim>\<open>str\<close> pattern follow the Unicode character
  database of the interpreter: \<^verbatim>\<open>\w\<close> is alphanumeric or the underscore, \<^verbatim>\<open>\d\<close> is a decimal
  digit, \<^verbatim>\<open>\s\<close> is white space.  On ASCII these are \<^verbatim>\<open>[a-zA-Z0-9_]\<close>, \<^verbatim>\<open>[0-9]\<close> and the
  characters 0x09 to 0x0D, 0x1C to 0x1F and the blank; they are written out.  Beyond ASCII
  the database is a parameter, the record \<open>unicode\<close>.
\<close>

type_synonym cp = int

type_synonym utext = "cp list"

definition cps :: "string \<Rightarrow> utext" where
  "cps s = map of_char s"

record unicode =
  uni_alnum :: "cp \<Rightarrow> bool"
  uni_decimal :: "cp \<Rightarrow> bool"
  uni_space :: "cp \<Rightarrow> bool"

datatype cls = Word | Digit | Space

definition ascii :: "cp \<Rightarrow> bool" where
  "ascii c = (0 \<le> c \<and> c < 128)"

fun in_cls :: "unicode \<Rightarrow> cls \<Rightarrow> cp \<Rightarrow> bool" where
  "in_cls db Word c =
     (if ascii c then
        (97 \<le> c \<and> c \<le> 122) \<or> (65 \<le> c \<and> c \<le> 90) \<or> (48 \<le> c \<and> c \<le> 57) \<or> c = 95
      else uni_alnum db c)"
| "in_cls db Digit c =
     (if ascii c then 48 \<le> c \<and> c \<le> 57 else uni_decimal db c)"
| "in_cls db Space c =
     (if ascii c then (9 \<le> c \<and> c \<le> 13) \<or> (28 \<le> c \<and> c \<le> 32) else uni_space db c)"

section \<open>Regular expressions as the patch rules use them\<close>

text \<open>
  The script drives Python's \<^verbatim>\<open>re\<close> module through three calls: \<^verbatim>\<open>Pattern.search\<close>,
  \<^verbatim>\<open>Pattern.finditer\<close> and \<^verbatim>\<open>Pattern.subn\<close>.  The patterns of the five declared rules are
  built from literal text, a character class under \<^verbatim>\<open>+\<close> or \<^verbatim>\<open>*\<close>, concatenation,
  alternation, an optional group, named groups and back-references.  That fragment is the
  datatype \<open>regex\<close>; a compiled pattern holds its classes as predicates on code points.
\<close>

datatype regex =
    Str utext
  | Plus "cp \<Rightarrow> bool"
  | Star "cp \<Rightarrow> bool"
  | Seq regex regex
  | Alt regex regex
  | Opt regex
  | Grp string regex
  | Bref string

type_synonym groups = "(string \<times> utext) list"

fun starts_with :: "utext \<Rightarrow> utext \<Rightarrow> bool" where
  "starts_with [] s = True"
| "starts_with (a # l) [] = False"
| "starts_with (a # l) (c # s) = (a = c \<and> starts_with l s)"

text \<open>
  \<open>rmatch r g s\<close> lists every way \<open>r\<close> matches a prefix of \<open>s\<close> under the group bindings
  \<open>g\<close>: the number of characters consumed and the bindings afterwards, in the order the
  backtracking engine tries them (a greedy repetition longest first, the left branch of an
  alternation first, an optional group present first).  A back-reference to a group that
  has not matched fails.
\<close>

fun rmatch :: "regex \<Rightarrow> groups \<Rightarrow> utext \<Rightarrow> (nat \<times> groups) list" where
  "rmatch (Str l) g s = (if starts_with l s then [(length l, g)] else [])"
| "rmatch (Plus c) g s = map (\<lambda>k. (k, g)) (rev [1..<Suc (length (takeWhile c s))])"
| "rmatch (Star c) g s = map (\<lambda>k. (k, g)) (rev [0..<Suc (length (takeWhile c s))])"
| "rmatch (Seq a b) g s =
     concat (map (\<lambda>(n, g'). map (\<lambda>(m, g''). (n + m, g'')) (rmatch b g' (drop n s)))
                 (rmatch a g s))"
| "rmatch (Alt a b) g s = rmatch a g s @ rmatch b g s"
| "rmatch (Opt a) g s = rmatch a g s @ [(0, g)]"
| "rmatch (Grp n a) g s = map (\<lambda>(k, g'). (k, (n, take k s) # g')) (rmatch a g s)"
| "rmatch (Bref n) g s =
     (case map_of g n of
        None \<Rightarrow> []
      | Some v \<Rightarrow> if starts_with v s then [(length v, g)] else [])"

text \<open>A match object: where the match starts and ends in the text, and its named groups.\<close>

record rematch =
  m_start :: nat
  m_end :: nat
  m_groups :: groups

text \<open>
  \<^verbatim>\<open>m.group(name)\<close>; a group that took no part in the match is \<^verbatim>\<open>None\<close>, which an f-string
  formats as the text \<^verbatim>\<open>None\<close>.
\<close>

definition group :: "rematch \<Rightarrow> string \<Rightarrow> utext" where
  "group m n = (case map_of (m_groups m) n of None \<Rightarrow> cps ''None'' | Some v \<Rightarrow> v)"

text \<open>
  The engine's search loop.  \<open>first_at\<close> is one match attempt at a fixed position: with
  \<open>adv\<close> (the engine's \<^verbatim>\<open>must_advance\<close>) an empty match is refused and backtracking goes on.
  \<open>scan r s pos adv\<close> tries position \<open>pos\<close>, whose remaining text is \<open>s\<close>, and then every
  later position; \<^verbatim>\<open>must_advance\<close> only holds for the first attempt.
\<close>

definition first_at :: "regex \<Rightarrow> utext \<Rightarrow> bool \<Rightarrow> (nat \<times> groups) option" where
  "first_at r s adv =
     (case filter (\<lambda>(k, g). \<not> (adv \<and> k = 0)) (rmatch r [] s) of
        [] \<Rightarrow> None
      | x # xs \<Rightarrow> Some x)"

fun scan :: "regex \<Rightarrow> utext \<Rightarrow> nat \<Rightarrow> bool \<Rightarrow> rematch option" where
  "scan r [] pos adv =
     (case first_at r [] adv of
        None \<Rightarrow> None
      | Some (k, g) \<Rightarrow> Some \<lparr>m_start = pos, m_end = pos + k, m_groups = g\<rparr>)"
| "scan r (c # s) pos adv =
     (case first_at r (c # s) adv of
        None \<Rightarrow> scan r s (Suc pos) False
      | Some (k, g) \<Rightarrow> Some \<lparr>m_start = pos, m_end = pos + k, m_groups = g\<rparr>)"

lemma starts_with_length: "starts_with l s \<Longrightarrow> length l \<le> length s"
  by (induction l s rule: starts_with.induct) auto

lemma rmatch_bound: "(k, g') \<in> set (rmatch r g s) \<Longrightarrow> k \<le> length s"
proof (induction r arbitrary: k g g' s)
  case (Str l)
  then show ?case by (auto split: if_splits dest: starts_with_length)
next
  case (Plus c)
  have "length (takeWhile c s) \<le> length s" by (rule length_takeWhile_le)
  with Plus show ?case by auto
next
  case (Star c)
  have "length (takeWhile c s) \<le> length s" by (rule length_takeWhile_le)
  with Star show ?case by auto
next
  case (Seq a b)
  from Seq.prems obtain n g1 m where
    a: "(n, g1) \<in> set (rmatch a g s)" and
    b: "(m, g') \<in> set (rmatch b g1 (drop n s))" and
    k: "k = n + m"
    by auto
  from Seq.IH(1)[OF a] Seq.IH(2)[OF b] k show ?case by auto
next
  case (Alt a b)
  then show ?case by auto
next
  case (Opt a)
  then show ?case by auto
next
  case (Grp n a)
  then show ?case by auto
next
  case (Bref n)
  then show ?case by (auto split: option.splits if_splits dest: starts_with_length)
qed

lemma first_at_mem:
  assumes "first_at r s adv = Some x"
  shows "x \<in> set (rmatch r [] s) \<and> \<not> (adv \<and> fst x = 0)"
proof -
  from assms obtain xs where
    "filter (\<lambda>(k, g). \<not> (adv \<and> k = 0)) (rmatch r [] s) = x # xs"
    by (auto simp: first_at_def split: list.splits)
  then have "x \<in> set (filter (\<lambda>(k, g). \<not> (adv \<and> k = 0)) (rmatch r [] s))"
    by simp
  then show ?thesis by auto
qed

lemma first_at_bound: "first_at r s adv = Some (k, g) \<Longrightarrow> k \<le> length s"
  using first_at_mem[of r s adv "(k, g)"] rmatch_bound[of k g r "[]" s] by simp

lemma first_at_adv: "first_at r s True = Some (k, g) \<Longrightarrow> 0 < k"
  using first_at_mem[of r s True "(k, g)"] by simp

lemma scan_span:
  "scan r s pos adv = Some m \<Longrightarrow>
     pos \<le> m_start m \<and> m_start m \<le> m_end m \<and> m_end m \<le> pos + length s"
proof (induction r s pos adv rule: scan.induct)
  case (1 r pos adv)
  then show ?case by (auto split: option.splits dest: first_at_bound)
next
  case (2 r c s pos adv)
  show ?case
  proof (cases "first_at r (c # s) adv")
    case None
    with 2 show ?thesis by auto
  next
    case (Some a)
    obtain k g where a: "a = (k, g)" by (cases a)
    from first_at_bound[of r "c # s" adv k g] Some a have "k \<le> Suc (length s)" by simp
    with 2(2) Some a show ?thesis by auto
  qed
qed

lemma scan_adv:
  "scan r s pos True = Some m \<Longrightarrow> m_start m = pos \<Longrightarrow> pos < m_end m"
proof (cases s)
  case Nil
  assume "scan r s pos True = Some m"
  with Nil show ?thesis by (auto split: option.splits dest: first_at_adv)
next
  case (Cons c s')
  assume h: "scan r s pos True = Some m" and st: "m_start m = pos"
  show ?thesis
  proof (cases "first_at r (c # s') True")
    case None
    with h Cons have "scan r s' (Suc pos) False = Some m" by simp
    from scan_span[OF this] st show ?thesis by simp
  next
    case (Some a)
    obtain k g where a: "a = (k, g)" by (cases a)
    from first_at_adv[of r "c # s'" k g] Some a have "0 < k" by simp
    with h Cons Some a show ?thesis by auto
  qed
qed

text \<open>
  \<^verbatim>\<open>Pattern.search\<close>, \<^verbatim>\<open>Pattern.finditer\<close> and \<^verbatim>\<open>Pattern.subn\<close>.  The last two repeat the
  search from the end of the previous match, with \<^verbatim>\<open>must_advance\<close> set when that match was
  empty; \<^verbatim>\<open>subn\<close> copies the text between the matches and calls the replacement on each
  match.
\<close>

definition search :: "regex \<Rightarrow> utext \<Rightarrow> rematch option" where
  "search r text = scan r text 0 False"

function finditer_from :: "regex \<Rightarrow> utext \<Rightarrow> nat \<Rightarrow> bool \<Rightarrow> rematch list" where
  "finditer_from r s pos adv =
     (case scan r s pos adv of
        None \<Rightarrow> []
      | Some m \<Rightarrow>
          m # finditer_from r (drop (m_end m - pos) s) (m_end m) (m_end m = m_start m))"
  by pat_completeness auto

termination
proof (relation "measure (\<lambda>(r, s, pos, adv). 2 * length s + (if adv then 0 else 1))")
  show "wf (measure (\<lambda>(r, s, pos, adv). 2 * length s + (if adv then 0 else 1)))"
    by simp
next
  fix r :: regex and s :: utext and pos :: nat and adv :: bool and m :: rematch
  assume h: "scan r s pos adv = Some m"
  note sp = scan_span[OF h]
  show "((r, drop (m_end m - pos) s, m_end m, m_end m = m_start m), (r, s, pos, adv))
          \<in> measure (\<lambda>(r, s, pos, adv). 2 * length s + (if adv then 0 else 1))"
  proof (cases "m_end m = pos")
    case True
    with sp have st: "m_start m = pos" by simp
    have "\<not> adv"
    proof
      assume "adv"
      with h have "scan r s pos True = Some m" by simp
      from scan_adv[OF this st] True show False by simp
    qed
    with True st show ?thesis by simp
  next
    case False
    with sp have "pos < m_end m" and "m_end m \<le> pos + length s" by auto
    then show ?thesis by auto
  qed
qed

definition finditer :: "regex \<Rightarrow> utext \<Rightarrow> rematch list" where
  "finditer r text = finditer_from r text 0 False"

function subn_from ::
  "regex \<Rightarrow> (rematch \<Rightarrow> utext) \<Rightarrow> utext \<Rightarrow> nat \<Rightarrow> bool \<Rightarrow> utext \<times> nat" where
  "subn_from r repl s pos adv =
     (case scan r s pos adv of
        None \<Rightarrow> (s, 0)
      | Some m \<Rightarrow>
          (case subn_from r repl (drop (m_end m - pos) s) (m_end m) (m_end m = m_start m) of
             (rest, n) \<Rightarrow> (take (m_start m - pos) s @ repl m @ rest, Suc n)))"
  by pat_completeness auto

termination
proof (relation "measure (\<lambda>(r, repl, s, pos, adv). 2 * length s + (if adv then 0 else 1))")
  show "wf (measure (\<lambda>(r, repl, s, pos, adv). 2 * length s + (if adv then 0 else 1)))"
    by simp
next
  fix r :: regex and repl :: "rematch \<Rightarrow> utext" and s :: utext and pos :: nat
    and adv :: bool and m :: rematch
  assume h: "scan r s pos adv = Some m"
  note sp = scan_span[OF h]
  show "((r, repl, drop (m_end m - pos) s, m_end m, m_end m = m_start m), (r, repl, s, pos, adv))
          \<in> measure (\<lambda>(r, repl, s, pos, adv). 2 * length s + (if adv then 0 else 1))"
  proof (cases "m_end m = pos")
    case True
    with sp have st: "m_start m = pos" by simp
    have "\<not> adv"
    proof
      assume "adv"
      with h have "scan r s pos True = Some m" by simp
      from scan_adv[OF this st] True show False by simp
    qed
    with True st show ?thesis by simp
  next
    case False
    with sp have "pos < m_end m" and "m_end m \<le> pos + length s" by auto
    then show ?thesis by auto
  qed
qed

definition subn :: "regex \<Rightarrow> (rematch \<Rightarrow> utext) \<Rightarrow> utext \<Rightarrow> utext \<times> nat" where
  "subn r repl text = subn_from r repl text 0 False"

declare finditer_from.simps [simp del]
declare subn_from.simps [simp del]

section \<open>Patch rules and \<^verbatim>\<open>apply_rule\<close>\<close>

text \<open>
  The dataclass \<^verbatim>\<open>PatchRule\<close>.  The replacement is the callable form of \<^verbatim>\<open>Replacement\<close>,
  which is what every declared rule passes.
\<close>

record PatchRule =
  name :: string
  unpatched :: regex
  replacement :: "rematch \<Rightarrow> utext"
  patched :: "regex option"
  expected_replacements :: int

text \<open>
  The two \<^verbatim>\<open>RuntimeError\<close>s of \<^verbatim>\<open>apply_rule\<close>, with the values their messages are formatted
  from: the rule name, the expected count and the count found.
\<close>

datatype error =
    ExpectedMatches string int nat
  | ExpectedReplacements string int nat

text \<open>\<^verbatim>\<open>rule.patched is not None and rule.patched.search(text)\<close>\<close>

definition patched_search :: "PatchRule \<Rightarrow> utext \<Rightarrow> bool" where
  "patched_search rule text =
     (case patched rule of
        None \<Rightarrow> False
      | Some p \<Rightarrow> search p text \<noteq> None)"

definition apply_rule :: "utext \<Rightarrow> PatchRule \<Rightarrow> bool \<Rightarrow> error + (utext \<times> string)" where
  "apply_rule text rule dry_run =
     (if patched_search rule text \<and> search (unpatched rule) text = None then
        Inr (text, ''already'')
      else if dry_run then
        (let count = length (finditer (unpatched rule) text) in
         if count = 0 \<and> patched_search rule text then Inr (text, ''already'')
         else if int count \<noteq> expected_replacements rule then
           Inl (ExpectedMatches (name rule) (expected_replacements rule) count)
         else Inr (text, ''would_apply''))
      else
        (case subn (unpatched rule) (replacement rule) text of
           (new_text, replaced) \<Rightarrow>
             if replaced = 0 \<and> patched_search rule text then Inr (text, ''already'')
             else if int replaced \<noteq> expected_replacements rule then
               Inl (ExpectedReplacements (name rule) (expected_replacements rule) replaced)
             else Inr (new_text, ''applied'')))"

section \<open>The declared rule set\<close>

text \<open>
  The five patterns and replacement callables of \<^verbatim>\<open>main\<close>, transcribed from their regular
  expression source; \<open>db\<close> is the Unicode database the patterns are compiled against.
  \<open>cat\<close> is concatenation, \<open>lit\<close> is literal text, \<open>W db\<close> is \<^verbatim>\<open>\w+\<close> and \<open>G db n\<close> is
  \<^verbatim>\<open>(?P<n>\w+)\<close>.
\<close>

fun cat :: "regex list \<Rightarrow> regex" where
  "cat [] = Str []"
| "cat [r] = r"
| "cat (r # rs) = Seq r (cat rs)"

definition lit :: "string \<Rightarrow> regex" where
  "lit s = Str (cps s)"

definition W :: "unicode \<Rightarrow> regex" where
  "W db = Plus (in_cls db Word)"

definition G :: "unicode \<Rightarrow> string \<Rightarrow> regex" where
  "G db n = Grp n (Plus (in_cls db Word))"

definition repl_exploration_drop_reasoning :: "rematch \<Rightarrow> utext" where
  \<open>repl_exploration_drop_reasoning m =
     (let item = group m ''item''; buf = group m ''buf''; close = group m ''close'' in
      cps ''if('' @ item @ cps ''.type==="reasoning"){'' @ buf @ cps ''&&'' @ close
        @ cps ''("explored")}'' @ buf @ cps ''&&'' @ close @ cps ''("explored")'')\<close>

definition repl_exploration_no_autocollapse :: "rematch \<Rightarrow> utext" where
  \<open>repl_exploration_no_autocollapse m =
     (let cb = group m ''cb''; cond = group m ''cond''; setter = group m ''setter'' in
      cb @ cps ''=()=>{'' @ cond @ cps ''&&'' @ setter @ cps ''("preview")}'')\<close>

definition repl_show_reasoning_items :: "rematch \<Rightarrow> utext" where
  \<open>repl_show_reasoning_items m =
     (let render = group m ''render''; child = group m ''child'' in
      render @ cps ''='' @ child)\<close>

definition repl_no_autocollapse_reasoning :: "rematch \<Rightarrow> utext" where
  \<open>repl_no_autocollapse_reasoning m =
     (let stream = group m ''stream''; el = group m ''el''; ref = group m ''ref'' in
      cps ''if(!'' @ stream @ cps ''){return}const '' @ el @ cps ''='' @ ref
        @ cps ''.current;'')\<close>

definition repl_autoscroll_user_scroll_flag :: "rematch \<Rightarrow> utext" where
  \<open>repl_autoscroll_user_scroll_flag m =
     (let el = group m ''el''; ref = group m ''ref'' in
      cps ''const '' @ el @ cps ''='' @ ref @ cps ''.current;''
        @ el @ cps ''&&(!'' @ el @ cps ''.__codexReasoningAutoScrollInit&&(''
        @ el @ cps ''.__codexReasoningAutoScrollInit=1,''
        @ el @ cps ''.__codexReasoningAutoScrollEnabled=1,''
        @ el @ cps ''.addEventListener("scroll",()=>{''
        @ el @ cps ''.__codexReasoningAutoScrollEnabled=''
        @ el @ cps ''.scrollHeight-'' @ el @ cps ''.clientHeight-'' @ el @ cps ''.scrollTop<16''
        @ cps ''},{passive:!0})''
        @ cps ''),''
        @ el @ cps ''.__codexReasoningAutoScrollEnabled&&('' @ el @ cps ''.scrollTop=''
        @ el @ cps ''.scrollHeight))'')\<close>

definition exploration_continuation_drop_reasoning :: "unicode \<Rightarrow> PatchRule" where
  \<open>exploration_continuation_drop_reasoning db =
     \<lparr>name = ''exploration_continuation_drop_reasoning'',
      unpatched =
        cat [lit ''if('', G db ''item'', lit ''.type==="reasoning"){'', G db ''buf'', lit ''&&'',
             Alt (cat [Bref ''buf'', lit ''.push('', Bref ''item'', lit '');continue''])
                 (lit ''pt("explored")''),
             lit ''}'', Bref ''buf'', lit ''&&'', G db ''close'', lit ''("explored")''],
      replacement = repl_exploration_drop_reasoning,
      patched =
        Some (cat [lit ''if('', W db, lit ''.type==="reasoning"){'', W db, lit ''&&'',
                   G db ''close'', lit ''("explored")}'', W db, lit ''&&'', Bref ''close'',
                   lit ''("explored")'']),
      expected_replacements = 1\<rparr>\<close>

definition exploration_no_autocollapse_on_finish :: "unicode \<Rightarrow> PatchRule" where
  \<open>exploration_no_autocollapse_on_finish db =
     \<lparr>name = ''exploration_no_autocollapse_on_finish'',
      unpatched =
        cat [G db ''cb'', lit ''=()=>{'', G db ''setter'', lit ''('', G db ''cond'',
             lit ''?"preview":"collapsed")}''],
      replacement = repl_exploration_no_autocollapse,
      patched =
        Some (cat [G db ''cb'', lit ''=()=>{'', W db, lit ''&&'', W db, lit ''("preview")}'']),
      expected_replacements = 1\<rparr>\<close>

definition show_reasoning_items_in_log :: "unicode \<Rightarrow> PatchRule" where
  \<open>show_reasoning_items_in_log db =
     \<lparr>name = ''show_reasoning_items_in_log'',
      unpatched =
        cat [G db ''render'', lit ''='', G db ''child'', lit '','', G db ''item'',
             lit ''.type==="reasoning"&&('', Bref ''render'', lit ''=null)''],
      replacement = repl_show_reasoning_items,
      patched =
        Some (cat [G db ''render'', lit ''='', G db ''child'', Star (in_cls db Space), lit ''}'',
                   Star (in_cls db Space), lit ''let'', Plus (in_cls db Space), W db, lit '';'',
                   Star (in_cls db Space), W db, lit ''['', Plus (in_cls db Digit),
                   lit '']!=='', Bref ''render'']),
      expected_replacements = 1\<rparr>\<close>

definition reasoning_no_autocollapse_on_finish :: "unicode \<Rightarrow> PatchRule" where
  \<open>reasoning_no_autocollapse_on_finish db =
     \<lparr>name = ''reasoning_no_autocollapse_on_finish'',
      unpatched =
        cat [lit ''if(!'', G db ''stream'', lit ''){'', G db ''setter'',
             lit ''(!1);return}const '', G db ''el'', lit ''='', G db ''ref'', lit ''.current;''],
      replacement = repl_no_autocollapse_reasoning,
      patched =
        Some (cat [lit ''if(!'', G db ''stream'', lit ''){return}const '', G db ''el'', lit ''='',
                   G db ''ref'', lit ''.current;'']),
      expected_replacements = 1\<rparr>\<close>

definition reasoning_autoscroll_user_scroll_flag :: "unicode \<Rightarrow> PatchRule" where
  \<open>reasoning_autoscroll_user_scroll_flag db =
     \<lparr>name = ''reasoning_autoscroll_user_scroll_flag'',
      unpatched =
        cat [lit ''const '', G db ''el'', lit ''='', G db ''ref'', lit ''.current;'', Bref ''el'',
             lit ''&&('',
             Opt (cat [Bref ''el'', lit ''.scrollHeight-'', Bref ''el'', lit ''.clientHeight-'',
                       Bref ''el'', lit ''.scrollTop<16)&&(''] ),
             Bref ''el'', lit ''.scrollTop='', Bref ''el'', lit ''.scrollHeight)''],
      replacement = repl_autoscroll_user_scroll_flag,
      patched = Some (lit ''__codexReasoningAutoScrollInit''),
      expected_replacements = 1\<rparr>\<close>

definition patches :: "unicode \<Rightarrow> PatchRule list" where
  "patches db =
     [exploration_continuation_drop_reasoning db,
      exploration_no_autocollapse_on_finish db,
      show_reasoning_items_in_log db,
      reasoning_no_autocollapse_on_finish db,
      reasoning_autoscroll_user_scroll_flag db]"

section \<open>The run: \<^verbatim>\<open>main\<close> from the extraction on\<close>

text \<open>
  \<^verbatim>\<open>main\<close> once the archive has been found.  The command line is \<open>args\<close>.  What the run
  cannot decide itself is \<open>env\<close>: the time stamp, the temporary directory and the outcome
  of each external step (extracting the archive and reading the bundle as text, \<^verbatim>\<open>node --check\<close>,
  \<^verbatim>\<open>js-beautify\<close>, \<^verbatim>\<open>asar pack\<close>, writing the backup, the check that the keep directory
  exists, the two checksums).  \<open>backup_failure\<close> is \<open>None\<close> when the backup is written in
  full, and otherwise what is left at the backup path when the write raises.  The files
  that outlive the run are \<open>files\<close>: the archive and its backup.  Every external action
  and every printed line is recorded, in order, as an \<open>effect\<close>.
\<close>

record args =
  asar :: string
  dry_run :: bool
  no_beautify :: bool
  keep_extracted :: bool

datatype run_error =
    RuleFailed error
  | ToolFailed string
  | WriteFailed string
  | RefusingToOverwrite string

record env =
  ts :: string
  tempdir :: string
  asar_extract :: "string \<Rightarrow> run_error + utext"
  node_check :: "utext \<Rightarrow> bool"
  js_beautify :: "utext \<Rightarrow> bool"
  asar_pack :: "utext \<Rightarrow> string option"
  backup_failure :: "string option option"
  keep_dir_exists :: bool
  sha256_file :: "string \<Rightarrow> string"
  sha256_asar_header_json :: "string \<Rightarrow> string"

record files =
  app_asar :: string
  backup_asar :: "string option"

datatype effect =
    Extract
  | Print string
  | WriteBundle utext
  | NodeCheck
  | Beautify
  | Pack
  | BackupFailed
  | WriteBackup string
  | WriteArchive string
  | MoveExtracted

text \<open>The loop over the rules: the text is folded forward, the statuses are collected.\<close>

fun run_rules ::
  "PatchRule list \<Rightarrow> bool \<Rightarrow> utext \<Rightarrow> (string \<times> string) list
     \<Rightarrow> error + (utext \<times> (string \<times> string) list)" where
  "run_rules [] dry text statuses = Inr (text, statuses)"
| "run_rules (rule # rest) dry text statuses =
     (case apply_rule text rule dry of
        Inl e \<Rightarrow> Inl e
      | Inr (text', status) \<Rightarrow> run_rules rest dry text' (statuses @ [(name rule, status)]))"

definition status_lines :: "(string \<times> string) list \<Rightarrow> effect list" where
  "status_lines statuses = map (\<lambda>(n, st). Print (n @ '': '' @ st)) statuses"

definition backup_path :: "args \<Rightarrow> env \<Rightarrow> string" where
  "backup_path a t = asar a @ ''.bak.'' @ ts t"

definition keep_dir :: "env \<Rightarrow> string" where
  "keep_dir t = tempdir t @ ''/codex_app_asar_extract_keep.'' @ ts t"

definition summary :: "args \<Rightarrow> env \<Rightarrow> files \<Rightarrow> effect list" where
  "summary a t f =
     [Print ''PATCHED'',
      Print (''asar:        '' @ asar a),
      Print (''backup:      '' @ backup_path a t),
      Print (''sha256(new): '' @ sha256_file t (app_asar f)),
      Print (''sha256(bak): '' @ sha256_file t (case backup_asar f of None \<Rightarrow> [] | Some b \<Rightarrow> b)),
      Print (''asar_header_sha256: '' @ sha256_asar_header_json t (app_asar f))]"

text \<open>
  The persistence steps, reached only in a real run whose text changed: write the bundle,
  check it, beautify it unless told not to, pack, back the archive up, overwrite it.
\<close>

definition main_persist ::
  "args \<Rightarrow> env \<Rightarrow> files \<Rightarrow> utext \<Rightarrow> (run_error + int) \<times> files \<times> effect list" where
  "main_persist a t f text =
     (if \<not> node_check t text then
        (Inl (ToolFailed ''node --check''), f, [WriteBundle text, NodeCheck])
      else if \<not> no_beautify a \<and> \<not> js_beautify t text then
        (Inl (ToolFailed ''npx -y js-beautify@1.15.1''), f, [WriteBundle text, NodeCheck, Beautify])
      else
        (let pre = [WriteBundle text, NodeCheck] @ (if no_beautify a then [] else [Beautify])
                     @ [Pack] in
         case asar_pack t text of
           None \<Rightarrow> (Inl (ToolFailed ''npx -y asar pack''), f, pre)
         | Some packed \<Rightarrow>
             (case backup_failure t of
                Some left \<Rightarrow>
                  (Inl (WriteFailed (backup_path a t)), f\<lparr>backup_asar := left\<rparr>,
                   pre @ [BackupFailed])
              | None \<Rightarrow>
                  (let f' = \<lparr>app_asar = packed, backup_asar = Some (app_asar f)\<rparr>;
                       done = pre @ [WriteBackup (app_asar f), WriteArchive packed] in
                   if keep_extracted a then
                     (if keep_dir_exists t then
                        (Inl (RefusingToOverwrite (keep_dir t)), f', done)
                      else
                        (Inr 0, f',
                         done @ [MoveExtracted, Print (''kept_extracted: '' @ keep_dir t)]
                           @ summary a t f'))
                   else (Inr 0, f', done @ summary a t f')))))"

definition main_run ::
  "args \<Rightarrow> env \<Rightarrow> PatchRule list \<Rightarrow> files \<Rightarrow> (run_error + int) \<times> files \<times> effect list" where
  "main_run a t rules f =
     (case asar_extract t (app_asar f) of
        Inl e \<Rightarrow> (Inl e, f, [Extract])
      | Inr original_js \<Rightarrow>
          (case run_rules rules (dry_run a) original_js [] of
             Inl e \<Rightarrow> (Inl (RuleFailed e), f, [Extract])
           | Inr (text, statuses) \<Rightarrow>
               (if dry_run a then (Inr 0, f, Extract # status_lines statuses)
                else if text = original_js then
                  (Inr 0, f,
                   Extract # status_lines statuses
                     @ [Print ''No changes to write (all patches already applied).''])
                else
                  (case main_persist a t f text of
                     (res, f', effs) \<Rightarrow> (res, f', Extract # status_lines statuses @ effs)))))"

section \<open>Equations for evaluation\<close>

text \<open>
  The definitions above are the specification of the matcher.  The equations of this
  section are proved from them and only make evaluation on concrete texts cheaper: a
  concatenation walks the results of its left part with \<open>seq_results\<close>, and the search
  loop skips a position whose first character no match of the pattern can start with
  (\<open>may_start\<close>).
\<close>

fun seq_results :: "regex \<Rightarrow> utext \<Rightarrow> (nat \<times> groups) list \<Rightarrow> (nat \<times> groups) list" where
  "seq_results b s [] = []"
| "seq_results b s ((n, g') # rest) =
     map (\<lambda>(m, g''). (n + m, g'')) (rmatch b g' (drop n s)) @ seq_results b s rest"

lemma seq_results_eq:
  "seq_results b s xs =
     concat (map (\<lambda>(n, g'). map (\<lambda>(m, g''). (n + m, g'')) (rmatch b g' (drop n s))) xs)"
  by (induction xs) auto

lemma rmatch_Seq_code: "rmatch (Seq a b) g s = seq_results b s (rmatch a g s)"
  by (simp add: seq_results_eq)

lemmas rmatch_code [code] = rmatch.simps(1-3) rmatch_Seq_code rmatch.simps(5-8)

fun may_start :: "regex \<Rightarrow> cp \<Rightarrow> bool" where
  "may_start (Str []) c = True"
| "may_start (Str (a # l)) c = (a = c)"
| "may_start (Plus k) c = k c"
| "may_start (Star k) c = True"
| "may_start (Seq a b) c = may_start a c"
| "may_start (Alt a b) c = (may_start a c \<or> may_start b c)"
| "may_start (Opt a) c = True"
| "may_start (Grp n a) c = may_start a c"
| "may_start (Bref n) c = True"

lemma may_start_rmatch: "\<not> may_start r c \<Longrightarrow> rmatch r g (c # s) = []"
proof (induction r arbitrary: g)
  case (Str l)
  then show ?case by (cases l) auto
qed auto

lemma scan_code [code]:
  "scan r [] pos adv =
     (case first_at r [] adv of
        None \<Rightarrow> None
      | Some (k, g) \<Rightarrow> Some \<lparr>m_start = pos, m_end = pos + k, m_groups = g\<rparr>)"
  "scan r (c # s) pos adv =
     (if may_start r c then
        (case first_at r (c # s) adv of
           None \<Rightarrow> scan r s (Suc pos) False
         | Some (k, g) \<Rightarrow> Some \<lparr>m_start = pos, m_end = pos + k, m_groups = g\<rparr>)
      else scan r s (Suc pos) False)"
  by (simp_all add: first_at_def may_start_rmatch)

section \<open>Facts about the search loop\<close>

lemma finditer_empty_iff: "finditer r t = [] \<longleftrightarrow> search r t = None"
  unfolding finditer_def search_def
  by (subst finditer_from.simps) (simp split: option.splits)

lemma count_zero_iff: "length (finditer r t) = 0 \<longleftrightarrow> search r t = None"
  using finditer_empty_iff[of r t] by simp

lemma subn_from_count:
  "snd (subn_from r repl s pos adv) = length (finditer_from r s pos adv)"
proof (induction r s pos adv rule: finditer_from.induct)
  case (1 r s pos adv)
  show ?case
  proof (cases "scan r s pos adv")
    case None
    then show ?thesis
      by (subst subn_from.simps, subst finditer_from.simps) simp
  next
    case (Some m)
    obtain rest n where
      sb: "subn_from r repl (drop (m_end m - pos) s) (m_end m) (m_end m = m_start m) = (rest, n)"
      by (cases "subn_from r repl (drop (m_end m - pos) s) (m_end m) (m_end m = m_start m)")
    from 1[OF Some] Some sb show ?thesis
      by (subst subn_from.simps, subst finditer_from.simps) simp
  qed
qed

lemma subn_count: "snd (subn r repl t) = length (finditer r t)"
  unfolding subn_def finditer_def by (rule subn_from_count)

lemma apply_rule_unfold:
  "apply_rule t rule dry =
     (if patched_search rule t \<and> search (unpatched rule) t = None then
        Inr (t, ''already'')
      else if int (length (finditer (unpatched rule) t)) \<noteq> expected_replacements rule then
        Inl ((if dry then ExpectedMatches else ExpectedReplacements)
               (name rule) (expected_replacements rule)
               (length (finditer (unpatched rule) t)))
      else Inr (if dry then (t, ''would_apply'')
                else (fst (subn (unpatched rule) (replacement rule) t), ''applied'')))"
proof -
  obtain nt n where s: "subn (unpatched rule) (replacement rule) t = (nt, n)"
    by (cases "subn (unpatched rule) (replacement rule) t")
  have n: "n = length (finditer (unpatched rule) t)"
    using subn_count[of "unpatched rule" "replacement rule" t] s by simp
  show ?thesis
    using count_zero_iff[of "unpatched rule" t]
    by (auto simp: apply_rule_def Let_def s n)
qed

lemma patched_search_iff:
  "patched_search rule t \<longleftrightarrow> (\<exists>p. patched rule = Some p \<and> search p t \<noteq> None)"
  by (simp add: patched_search_def split: option.splits)

section \<open>Example documents\<close>

text \<open>
  The closed examples below compile the rules against \<open>ascii_only\<close>, a database with no
  entry beyond ASCII.  Their texts are ASCII, where the database is never consulted.
\<close>

definition ascii_only :: unicode where
  "ascii_only =
     \<lparr>uni_alnum = (\<lambda>c. False), uni_decimal = (\<lambda>c. False), uni_space = (\<lambda>c. False)\<rparr>"

definition doc_patched :: utext where
  \<open>doc_patched = cps ''if(a.type==="reasoning"){b&&cl("explored")}b&&cl("explored")''\<close>

definition doc_pt :: utext where
  \<open>doc_pt = cps ''if(a.type==="reasoning"){b&&pt("explored")}b&&pt("explored")''\<close>

definition doc_twice :: utext where
  \<open>doc_twice = cps ''f=()=>{s(c?"preview":"collapsed")};g=()=>{s(c?"preview":"collapsed")}''\<close>


definition doc_render_ctx :: utext where
  \<open>doc_render_ctx = cps ''{a=b,c.type==="reasoning"&&(a=null)}let q;z[12]!==a''\<close>

section \<open>Claims\<close>

text \<open>
  C1.  When a rule has a patched matcher, that matcher matches the text and the unpatched
  matcher does not, \<^verbatim>\<open>apply_rule\<close> returns the text as it is with status \<^verbatim>\<open>already\<close>, in a
  dry run and in a real run.
\<close>

theorem apply_rule_already:
  assumes "patched rule = Some p" and "search p t \<noteq> None"
    and "search (unpatched rule) t = None"
  shows "apply_rule t rule True = Inr (t, ''already'')
       \<and> apply_rule t rule False = Inr (t, ''already'')"
  using assms by (simp add: apply_rule_def patched_search_def)

theorem apply_rule_already_witness:
  "patched (exploration_continuation_drop_reasoning ascii_only) \<noteq> None
   \<and> search (the (patched (exploration_continuation_drop_reasoning ascii_only))) doc_patched \<noteq> None
   \<and> search (unpatched (exploration_continuation_drop_reasoning ascii_only)) doc_patched = None
   \<and> apply_rule doc_patched (exploration_continuation_drop_reasoning ascii_only) True
       = Inr (doc_patched, ''already'')
   \<and> apply_rule doc_patched (exploration_continuation_drop_reasoning ascii_only) False
       = Inr (doc_patched, ''already'')"
proof -
  obtain p where p: "patched (exploration_continuation_drop_reasoning ascii_only) = Some p"
    by (simp add: exploration_continuation_drop_reasoning_def)
  have h2: "search (the (patched (exploration_continuation_drop_reasoning ascii_only))) doc_patched \<noteq> None"
    by code_simp
  have h3: "search (unpatched (exploration_continuation_drop_reasoning ascii_only)) doc_patched = None"
    by code_simp
  from h2 p have h2': "search p doc_patched \<noteq> None" by simp
  from apply_rule_already[OF p h2' h3] p h2 h3 show ?thesis by simp
qed

text \<open>
  C2.  The claim that a text on which both matchers match makes \<^verbatim>\<open>apply_rule\<close> fail does
  not hold: the first declared rule accepts \<^verbatim>\<open>pt("explored")\<close> in its unpatched pattern, so a
  text patched with \<^verbatim>\<open>pt\<close> as the closing function matches both, and the rule is applied.
\<close>

theorem both_match_counterexample:
  "patched_search (exploration_continuation_drop_reasoning ascii_only) doc_pt
   \<and> search (unpatched (exploration_continuation_drop_reasoning ascii_only)) doc_pt \<noteq> None
   \<and> apply_rule doc_pt (exploration_continuation_drop_reasoning ascii_only) False = Inr (doc_pt, ''applied'')
   \<and> apply_rule doc_pt (exploration_continuation_drop_reasoning ascii_only) True
       = Inr (doc_pt, ''would_apply'')"
  by code_simp

text \<open>
  C2, amended.  When both matchers match, \<^verbatim>\<open>apply_rule\<close> does not return \<^verbatim>\<open>already\<close>; the
  count of unpatched matches decides: the call fails when the count differs from
  \<^verbatim>\<open>expected_replacements\<close>, and otherwise returns \<^verbatim>\<open>would_apply\<close> with the text unchanged
  (dry run) or \<^verbatim>\<open>applied\<close> with the substituted text (real run).
\<close>

theorem both_match_count_decides:
  assumes "patched_search rule t" and "search (unpatched rule) t \<noteq> None"
  shows "apply_rule t rule dry =
     (if int (length (finditer (unpatched rule) t)) \<noteq> expected_replacements rule then
        Inl ((if dry then ExpectedMatches else ExpectedReplacements)
               (name rule) (expected_replacements rule)
               (length (finditer (unpatched rule) t)))
      else Inr (if dry then (t, ''would_apply'')
                else (fst (subn (unpatched rule) (replacement rule) t), ''applied'')))"
  using assms by (simp add: apply_rule_unfold)

theorem both_match_count_decides_witness:
  "patched_search (exploration_continuation_drop_reasoning ascii_only) doc_pt
   \<and> search (unpatched (exploration_continuation_drop_reasoning ascii_only)) doc_pt \<noteq> None
   \<and> apply_rule doc_pt (exploration_continuation_drop_reasoning ascii_only) True
       = Inr (doc_pt, ''would_apply'')"
proof -
  have h1: "patched_search (exploration_continuation_drop_reasoning ascii_only) doc_pt" by code_simp
  have h2: "search (unpatched (exploration_continuation_drop_reasoning ascii_only)) doc_pt \<noteq> None"
    by code_simp
  have c: "int (length (finditer (unpatched (exploration_continuation_drop_reasoning ascii_only)) doc_pt))
             = expected_replacements (exploration_continuation_drop_reasoning ascii_only)"
    by code_simp
  from both_match_count_decides[OF h1 h2, of True] c
  have "apply_rule doc_pt (exploration_continuation_drop_reasoning ascii_only) True
          = Inr (doc_pt, ''would_apply'')"
    by simp
  with h1 h2 show ?thesis by simp
qed


definition doc_push :: utext where
  \<open>doc_push = cps ''if(a.type==="reasoning"){b&&b.push(a);continue}b&&cl("explored")''\<close>




text \<open>
  C4.  When \<^verbatim>\<open>apply_rule\<close> does not classify the text as \<^verbatim>\<open>already\<close> and the number of
  matches of the unpatched matcher differs from \<^verbatim>\<open>expected_replacements\<close>, the call fails
  with the count error of its mode (matches in a dry run, replacements in a real run); the
  result is the error, so no text, substituted or not, is returned.
\<close>

theorem count_mismatch_fails:
  assumes "apply_rule t rule dry \<noteq> Inr (t, ''already'')"
    and "int (length (finditer (unpatched rule) t)) \<noteq> expected_replacements rule"
  shows "apply_rule t rule dry =
           Inl ((if dry then ExpectedMatches else ExpectedReplacements)
                  (name rule) (expected_replacements rule)
                  (length (finditer (unpatched rule) t)))"
  using assms by (simp add: apply_rule_unfold split: if_splits)

theorem count_mismatch_fails_witness:
  "apply_rule doc_twice (exploration_no_autocollapse_on_finish ascii_only) True \<noteq> Inr (doc_twice, ''already'')
   \<and> apply_rule doc_twice (exploration_no_autocollapse_on_finish ascii_only) False
        \<noteq> Inr (doc_twice, ''already'')
   \<and> length (finditer (unpatched (exploration_no_autocollapse_on_finish ascii_only)) doc_twice) = 2
   \<and> expected_replacements (exploration_no_autocollapse_on_finish ascii_only) = 1
   \<and> apply_rule doc_twice (exploration_no_autocollapse_on_finish ascii_only) True
       = Inl (ExpectedMatches ''exploration_no_autocollapse_on_finish'' 1 2)
   \<and> apply_rule doc_twice (exploration_no_autocollapse_on_finish ascii_only) False
       = Inl (ExpectedReplacements ''exploration_no_autocollapse_on_finish'' 1 2)"
proof -
  have a1: "apply_rule doc_twice (exploration_no_autocollapse_on_finish ascii_only) True
              \<noteq> Inr (doc_twice, ''already'')"
    by code_simp
  have a2: "apply_rule doc_twice (exploration_no_autocollapse_on_finish ascii_only) False
              \<noteq> Inr (doc_twice, ''already'')"
    by code_simp
  have n: "length (finditer (unpatched (exploration_no_autocollapse_on_finish ascii_only)) doc_twice) = 2"
    by code_simp
  have e: "expected_replacements (exploration_no_autocollapse_on_finish ascii_only) = 1"
    by (simp add: exploration_no_autocollapse_on_finish_def)
  have nm: "name (exploration_no_autocollapse_on_finish ascii_only) = ''exploration_no_autocollapse_on_finish''"
    by (simp add: exploration_no_autocollapse_on_finish_def)
  have ne: "int (length (finditer (unpatched (exploration_no_autocollapse_on_finish ascii_only)) doc_twice))
              \<noteq> expected_replacements (exploration_no_autocollapse_on_finish ascii_only)"
    using n e by simp
  from count_mismatch_fails[OF a1 ne] count_mismatch_fails[OF a2 ne] a1 a2 n e nm
  show ?thesis by simp
qed

text \<open>
  C9.  \<^verbatim>\<open>apply_rule\<close> returns \<^verbatim>\<open>already\<close> exactly when the patched matcher is defined and
  matches and the unpatched matcher does not match.  The guards of the two later
  \<^verbatim>\<open>already\<close> branches (no match counted, or nothing replaced, and the patched matcher
  matches) imply the first test, which has returned by then: the branches are unreachable.
\<close>

theorem already_only_by_first_test:
  "((\<exists>t'. apply_rule t rule dry = Inr (t', ''already''))
      \<longleftrightarrow> (\<exists>p. patched rule = Some p \<and> search p t \<noteq> None)
          \<and> search (unpatched rule) t = None)
   \<and> (length (finditer (unpatched rule) t) = 0 \<and> patched_search rule t
        \<longrightarrow> patched_search rule t \<and> search (unpatched rule) t = None)
   \<and> (snd (subn (unpatched rule) (replacement rule) t) = 0 \<and> patched_search rule t
        \<longrightarrow> patched_search rule t \<and> search (unpatched rule) t = None)"
proof (intro conjI)
  show "(\<exists>t'. apply_rule t rule dry = Inr (t', ''already''))
      \<longleftrightarrow> (\<exists>p. patched rule = Some p \<and> search p t \<noteq> None)
          \<and> search (unpatched rule) t = None"
    by (simp add: apply_rule_unfold patched_search_iff)
  show "length (finditer (unpatched rule) t) = 0 \<and> patched_search rule t
        \<longrightarrow> patched_search rule t \<and> search (unpatched rule) t = None"
    using count_zero_iff[of "unpatched rule" t] by simp
  show "snd (subn (unpatched rule) (replacement rule) t) = 0 \<and> patched_search rule t
        \<longrightarrow> patched_search rule t \<and> search (unpatched rule) t = None"
    using count_zero_iff[of "unpatched rule" t] by (simp add: subn_count)
qed

theorem already_only_by_first_test_witness:
  "(\<exists>t'. apply_rule doc_patched (exploration_continuation_drop_reasoning ascii_only) False
            = Inr (t', ''already''))
   \<and> length (finditer (unpatched (exploration_continuation_drop_reasoning ascii_only)) doc_patched) = 0
   \<and> snd (subn (unpatched (exploration_continuation_drop_reasoning ascii_only))
              (replacement (exploration_continuation_drop_reasoning ascii_only)) doc_patched) = 0
   \<and> patched_search (exploration_continuation_drop_reasoning ascii_only) doc_patched
   \<and> search (unpatched (exploration_continuation_drop_reasoning ascii_only)) doc_patched = None"
proof -
  have p: "patched_search (exploration_continuation_drop_reasoning ascii_only) doc_patched" by code_simp
  have n: "length (finditer (unpatched (exploration_continuation_drop_reasoning ascii_only)) doc_patched) = 0"
    by code_simp
  have m: "snd (subn (unpatched (exploration_continuation_drop_reasoning ascii_only))
              (replacement (exploration_continuation_drop_reasoning ascii_only)) doc_patched) = 0"
    by code_simp
  from already_only_by_first_test[of doc_patched "exploration_continuation_drop_reasoning ascii_only" False]
    p n
  have u: "search (unpatched (exploration_continuation_drop_reasoning ascii_only)) doc_patched = None"
    by blast
  from already_only_by_first_test[of doc_patched "exploration_continuation_drop_reasoning ascii_only" False]
    p u
  have "\<exists>t'. apply_rule doc_patched (exploration_continuation_drop_reasoning ascii_only) False
            = Inr (t', ''already'')"
    by (simp add: patched_search_iff)
  with p n m u show ?thesis by simp
qed

text \<open>
  C10.  \<^verbatim>\<open>apply_rule\<close> raises, or returns one of the statuses \<^verbatim>\<open>already\<close>,
  \<^verbatim>\<open>would_apply\<close>, \<^verbatim>\<open>applied\<close>; \<^verbatim>\<open>would_apply\<close> only in a dry run, \<^verbatim>\<open>applied\<close> only in a
  real run, and with \<^verbatim>\<open>already\<close> or \<^verbatim>\<open>would_apply\<close> the returned text is the input text.
\<close>

theorem apply_rule_statuses:
  "(\<exists>e. apply_rule t rule dry = Inl e)
   \<or> (\<exists>t' st. apply_rule t rule dry = Inr (t', st)
         \<and> st \<in> {''already'', ''would_apply'', ''applied''}
         \<and> (st = ''would_apply'' \<longrightarrow> dry)
         \<and> (st = ''applied'' \<longrightarrow> \<not> dry)
         \<and> (st = ''already'' \<or> st = ''would_apply'' \<longrightarrow> t' = t))"
  by (simp add: apply_rule_unfold)

theorem apply_rule_statuses_witness:
  "apply_rule doc_pt (exploration_continuation_drop_reasoning ascii_only) True = Inr (doc_pt, ''would_apply'')
   \<and> (\<exists>t' st. apply_rule doc_pt (exploration_continuation_drop_reasoning ascii_only) True = Inr (t', st)
         \<and> st \<in> {''already'', ''would_apply'', ''applied''} \<and> t' = doc_pt)"
proof -
  have h: "apply_rule doc_pt (exploration_continuation_drop_reasoning ascii_only) True
             = Inr (doc_pt, ''would_apply'')"
    by code_simp
  from apply_rule_statuses[of doc_pt "exploration_continuation_drop_reasoning ascii_only" True] h
  show ?thesis by auto
qed

section \<open>Facts about the run\<close>

lemma run_rules_append:
  "run_rules (pre @ post) dry t sts =
     (case run_rules pre dry t sts of
        Inl e \<Rightarrow> Inl e
      | Inr (t', sts') \<Rightarrow> run_rules post dry t' sts')"
  by (induction pre arbitrary: t sts) (auto split: sum.splits prod.splits)


lemma status_lines_prints: "x \<in> set (status_lines sts) \<Longrightarrow> \<exists>l. x = Print l"
  by (auto simp: status_lines_def)

lemma summary_prints: "x \<in> set (summary a t f) \<Longrightarrow> \<exists>l. x = Print l"
  by (auto simp: summary_def)

definition persist_pre :: "args \<Rightarrow> utext \<Rightarrow> effect list" where
  "persist_pre a text0 =
     [WriteBundle text0, NodeCheck] @ (if no_beautify a then [] else [Beautify]) @ [Pack]"

lemma persist_overwrite:
  assumes "main_persist a t f text0 = (res, f', effs)"
    and "(\<exists>b. WriteArchive b \<in> set effs) \<or> app_asar f' \<noteq> app_asar f"
  shows "node_check t text0 \<and>
         (\<exists>packed. asar_pack t text0 = Some packed \<and> backup_failure t = None \<and>
            app_asar f' = packed \<and> backup_asar f' = Some (app_asar f) \<and>
            (\<exists>post. effs = persist_pre a text0 @ WriteBackup (app_asar f) # WriteArchive packed # post))"
  using assms
  by (auto simp: main_persist_def persist_pre_def Let_def
           split: if_splits option.splits dest: summary_prints)



lemma persist_failure:
  assumes "main_persist a t f text0 = (Inl e, f', effs)"
    and "\<forall>d. e \<noteq> RefusingToOverwrite d"
  shows "app_asar f' = app_asar f \<and> (\<forall>b. WriteArchive b \<notin> set effs)"
  using assms
  by (auto simp: main_persist_def Let_def split: if_splits option.splits)

lemma persist_tool_failure:
  assumes "main_persist a t f text0 = (Inl e, f', effs)"
    and "(\<exists>x. e = RuleFailed x) \<or> (\<exists>c. e = ToolFailed c)"
  shows "f' = f \<and> (\<forall>b. WriteBackup b \<notin> set effs) \<and> BackupFailed \<notin> set effs
         \<and> (\<forall>b. WriteArchive b \<notin> set effs)"
  using assms
  by (auto simp: main_persist_def Let_def split: if_splits option.splits)

lemma persist_pre_clean:
  "(\<forall>b. WriteArchive b \<notin> set (persist_pre a text0))
   \<and> (\<forall>b. WriteBackup b \<notin> set (persist_pre a text0))"
  by (simp add: persist_pre_def)

lemma status_lines_clean:
  "(\<forall>b. WriteArchive b \<notin> set (status_lines sts)) \<and> (\<forall>b. WriteBackup b \<notin> set (status_lines sts))
   \<and> BackupFailed \<notin> set (status_lines sts)"
  by (auto simp: status_lines_def)

text \<open>
  C6.  In a real run in which the text after all rules equals the original text, the run
  prints the status lines and \<^verbatim>\<open>No changes to write\<close>, returns 0 and leaves the files as
  they were; its effects are the extraction and printed lines only: the bundle is not
  written, and nothing is checked, packed, backed up or overwritten.
\<close>

theorem no_change_no_persistence:
  assumes "\<not> dry_run a"
    and "asar_extract t (app_asar f) = Inr js"
    and "run_rules rules False js [] = Inr (js, sts)"
  shows "main_run a t rules f =
           (Inr 0, f,
            Extract # status_lines sts
              @ [Print ''No changes to write (all patches already applied).''])
         \<and> (\<forall>x \<in> set (snd (snd (main_run a t rules f))). x = Extract \<or> (\<exists>l. x = Print l))"
proof -
  have m: "main_run a t rules f =
           (Inr 0, f,
            Extract # status_lines sts
              @ [Print ''No changes to write (all patches already applied).''])"
    using assms by (simp add: main_run_def)
  show ?thesis
    unfolding m using status_lines_prints[of _ sts] by auto
qed

text \<open>
  C7.  The archive is overwritten only after every rule succeeded, \<^verbatim>\<open>node --check\<close>
  accepted the patched text, \<^verbatim>\<open>asar pack\<close> succeeded and the backup of the original archive
  was written in full, the backup being the write just before the overwrite.  When the run
  fails in a rule, an external tool or the backup write, the archive is unchanged; when it
  fails in a rule or an external tool (so at or before packing), no backup was written or
  begun.
\<close>

theorem overwrite_only_after_backup:
  assumes "main_run a t rules f = (res, f', effs)"
  shows "((\<exists>b. WriteArchive b \<in> set effs) \<or> app_asar f' \<noteq> app_asar f \<longrightarrow>
            (\<exists>js text1 sts packed pre post.
               asar_extract t (app_asar f) = Inr js \<and>
               run_rules rules False js [] = Inr (text1, sts) \<and>
               node_check t text1 \<and>
               asar_pack t text1 = Some packed \<and>
               backup_failure t = None \<and>
               backup_asar f' = Some (app_asar f) \<and>
               app_asar f' = packed \<and>
               effs = pre @ WriteBackup (app_asar f) # WriteArchive packed # post \<and>
               (\<forall>b. WriteArchive b \<notin> set pre)))
       \<and> (\<forall>e. res = Inl e \<and> (\<forall>d. e \<noteq> RefusingToOverwrite d) \<longrightarrow>
              app_asar f' = app_asar f \<and> (\<forall>b. WriteArchive b \<notin> set effs))
       \<and> (\<forall>e. res = Inl e \<and> ((\<exists>x. e = RuleFailed x) \<or> (\<exists>c. e = ToolFailed c)) \<longrightarrow>
              backup_asar f' = backup_asar f \<and> (\<forall>b. WriteBackup b \<notin> set effs)
              \<and> BackupFailed \<notin> set effs)"
proof (cases "asar_extract t (app_asar f)")
  case (Inl e)
  with assms show ?thesis by (auto simp: main_run_def)
next
  case (Inr js)
  show ?thesis
  proof (cases "run_rules rules (dry_run a) js []")
    case (Inl e)
    with assms Inr show ?thesis by (auto simp: main_run_def)
  next
    case rr: (Inr p)
    obtain text1 sts where p: "p = (text1, sts)" by (cases p)
    show ?thesis
    proof (cases "dry_run a \<or> text1 = js")
      case True
      with assms Inr rr p show ?thesis
        using status_lines_clean[of sts] by (auto simp: main_run_def split: if_splits)
    next
      case False
      then have nd: "\<not> dry_run a" and ch: "text1 \<noteq> js" by auto
      obtain r1 f1 e1 where mp: "main_persist a t f text1 = (r1, f1, e1)"
        by (cases "main_persist a t f text1") auto
      from assms Inr rr p nd ch mp
      have res: "res = r1" and f': "f' = f1"
        and effs: "effs = Extract # status_lines sts @ e1"
        by (auto simp: main_run_def)
      have rrF: "run_rules rules False js [] = Inr (text1, sts)"
        using rr p nd by simp
      have part1: "(\<exists>b. WriteArchive b \<in> set effs) \<or> app_asar f' \<noteq> app_asar f \<longrightarrow>
            (\<exists>js text1 sts packed pre post.
               asar_extract t (app_asar f) = Inr js \<and>
               run_rules rules False js [] = Inr (text1, sts) \<and>
               node_check t text1 \<and>
               asar_pack t text1 = Some packed \<and>
               backup_failure t = None \<and>
               backup_asar f' = Some (app_asar f) \<and>
               app_asar f' = packed \<and>
               effs = pre @ WriteBackup (app_asar f) # WriteArchive packed # post \<and>
               (\<forall>b. WriteArchive b \<notin> set pre))"
      proof
        assume ow: "(\<exists>b. WriteArchive b \<in> set effs) \<or> app_asar f' \<noteq> app_asar f"
        then have "(\<exists>b. WriteArchive b \<in> set e1) \<or> app_asar f1 \<noteq> app_asar f"
          using effs f' status_lines_clean[of sts] by auto
        from persist_overwrite[OF mp this] obtain packed post where
          nc: "node_check t text1" and pk: "asar_pack t text1 = Some packed"
          and bf: "backup_failure t = None" and a1: "app_asar f1 = packed"
          and b1: "backup_asar f1 = Some (app_asar f)"
          and e1: "e1 = persist_pre a text1 @ WriteBackup (app_asar f) # WriteArchive packed # post"
          by blast
        define pre where "pre = Extract # status_lines sts @ persist_pre a text1"
        have clean: "\<forall>b. WriteArchive b \<notin> set pre"
          using status_lines_clean[of sts] persist_pre_clean[of a text1] by (auto simp: pre_def)
        have "effs = pre @ WriteBackup (app_asar f) # WriteArchive packed # post"
          by (simp add: effs e1 pre_def)
        with Inr rrF nc pk bf a1 b1 f' clean show "\<exists>js text1 sts packed pre post.
               asar_extract t (app_asar f) = Inr js \<and>
               run_rules rules False js [] = Inr (text1, sts) \<and>
               node_check t text1 \<and>
               asar_pack t text1 = Some packed \<and>
               backup_failure t = None \<and>
               backup_asar f' = Some (app_asar f) \<and>
               app_asar f' = packed \<and>
               effs = pre @ WriteBackup (app_asar f) # WriteArchive packed # post \<and>
               (\<forall>b. WriteArchive b \<notin> set pre)"
          by blast
      qed
      have part2: "\<forall>e. res = Inl e \<and> (\<forall>d. e \<noteq> RefusingToOverwrite d) \<longrightarrow>
              app_asar f' = app_asar f \<and> (\<forall>b. WriteArchive b \<notin> set effs)"
        using persist_failure[of a t f text1 _ f1 e1] mp res f' effs status_lines_clean[of sts]
        by auto
      have part3: "\<forall>e. res = Inl e \<and> ((\<exists>x. e = RuleFailed x) \<or> (\<exists>c. e = ToolFailed c)) \<longrightarrow>
              backup_asar f' = backup_asar f \<and> (\<forall>b. WriteBackup b \<notin> set effs)
              \<and> BackupFailed \<notin> set effs"
        using persist_tool_failure[of a t f text1 _ f1 e1] mp res f' effs
          status_lines_clean[of sts]
        by auto
      from part1 part2 part3 show ?thesis by blast
    qed
  qed
qed

text \<open>
  C8, amended.  When a rule fails, the run stops there: whatever rules follow, the result is
  the failing rule's error, which carries the rule's name, the expected count and the count
  found; the files are unchanged and the only effect is the extraction.  No status line is
  printed, neither for the rules before the failing one nor for the failing one.
\<close>

theorem rule_failure_aborts:
  assumes "asar_extract t (app_asar f) = Inr js"
    and "run_rules pre (dry_run a) js [] = Inr (text1, sts)"
    and "apply_rule text1 rule (dry_run a) = Inl e"
  shows "main_run a t (pre @ rule # post) f = (Inl (RuleFailed e), f, [Extract])
       \<and> e = (if dry_run a then ExpectedMatches else ExpectedReplacements)
               (name rule) (expected_replacements rule)
               (length (finditer (unpatched rule) text1))"
proof -
  have "run_rules (pre @ rule # post) (dry_run a) js [] = Inl e"
    using assms(2,3) by (simp add: run_rules_append)
  with assms(1) have m: "main_run a t (pre @ rule # post) f = (Inl (RuleFailed e), f, [Extract])"
    by (simp add: main_run_def)
  from assms(3) have "e = (if dry_run a then ExpectedMatches else ExpectedReplacements)
               (name rule) (expected_replacements rule)
               (length (finditer (unpatched rule) text1))"
    by (auto simp: apply_rule_unfold split: if_splits)
  with m show ?thesis by simp
qed


section \<open>Example runs\<close>

definition doc_interact :: utext where
  \<open>doc_interact = cps ''if(a.type==="reasoning"){b&&b.push(a);continue}b&&cl("explored");f=()=>{s(c?"preview":"collapsed")};if(!s){g(!1);return}const e=h.current;const a=b,c.type==="reasoning"&&(a=null).current;a&&(a.scrollTop=a.scrollHeight)''\<close>

definition doc_interact_patched :: utext where
  \<open>doc_interact_patched = cps ''if(a.type==="reasoning"){b&&cl("explored")}b&&cl("explored");f=()=>{c&&s("preview")};if(!s){return}const e=h.current;const a=b.current;a&&(!a.__codexReasoningAutoScrollInit&&(a.__codexReasoningAutoScrollInit=1,a.__codexReasoningAutoScrollEnabled=1,a.addEventListener("scroll",()=>{a.__codexReasoningAutoScrollEnabled=a.scrollHeight-a.clientHeight-a.scrollTop<16},{passive:!0})),a.__codexReasoningAutoScrollEnabled&&(a.scrollTop=a.scrollHeight))''\<close>

definition doc_all_patched :: utext where
  \<open>doc_all_patched = cps ''if(a.type==="reasoning"){b&&cl("explored")}b&&cl("explored");f=()=>{c&&s("preview")};{r=k}let q;z[1]!==r;if(!s){return}const e=h.current;__codexReasoningAutoScrollInit''\<close>

definition all_status :: "string \<Rightarrow> (string \<times> string) list" where
  "all_status st =
     [(''exploration_continuation_drop_reasoning'', st),
      (''exploration_no_autocollapse_on_finish'', st),
      (''show_reasoning_items_in_log'', st),
      (''reasoning_no_autocollapse_on_finish'', st),
      (''reasoning_autoscroll_user_scroll_flag'', st)]"

definition args_of :: "bool \<Rightarrow> args" where
  "args_of dry =
     \<lparr>asar = ''app.asar'', dry_run = dry, no_beautify = False, keep_extracted = False\<rparr>"

definition env_of :: "utext \<Rightarrow> bool \<Rightarrow> env" where
  "env_of js pack_ok =
     \<lparr>ts = ''20260101T000000Z'', tempdir = ''/tmp'',
      asar_extract = (\<lambda>archive. Inr js),
      node_check = (\<lambda>text. True),
      js_beautify = (\<lambda>text. True),
      asar_pack = (\<lambda>text. if pack_ok then Some ''patched archive'' else None),
      backup_failure = None,
      keep_dir_exists = False,
      sha256_file = (\<lambda>bytes. ''sha256''),
      sha256_asar_header_json = (\<lambda>bytes. ''sha256'')\<rparr>"

definition files0 :: files where
  "files0 = \<lparr>app_asar = ''original archive'', backup_asar = None\<rparr>"


lemma run_interact_real:
  "run_rules (patches ascii_only) False doc_interact [] = Inr (doc_interact_patched, all_status ''applied'')"
  by code_simp

lemma run_all_patched:
  "run_rules (patches ascii_only) False doc_all_patched [] = Inr (doc_all_patched, all_status ''already'')"
  by code_simp

lemma run_push_first:
  "run_rules [(exploration_continuation_drop_reasoning ascii_only)] False doc_push []
     = Inr (doc_patched, [(''exploration_continuation_drop_reasoning'', ''applied'')])"
  by code_simp

lemma run_push_all:
  "run_rules (patches ascii_only) False doc_push []
     = Inl (ExpectedReplacements ''exploration_no_autocollapse_on_finish'' 1 0)"
  by code_simp


lemma doc_interact_changed: "doc_interact_patched \<noteq> doc_interact"
  by code_simp

theorem no_change_no_persistence_witness:
  "\<not> dry_run (args_of False)
   \<and> asar_extract (env_of doc_all_patched True) (app_asar files0) = Inr doc_all_patched
   \<and> run_rules (patches ascii_only) False doc_all_patched [] = Inr (doc_all_patched, all_status ''already'')
   \<and> main_run (args_of False) (env_of doc_all_patched True) (patches ascii_only) files0 =
        (Inr 0, files0,
         Extract # status_lines (all_status ''already'')
           @ [Print ''No changes to write (all patches already applied).''])"
proof -
  have h1: "\<not> dry_run (args_of False)" by (simp add: args_of_def)
  have h2: "asar_extract (env_of doc_all_patched True) (app_asar files0) = Inr doc_all_patched"
    by (simp add: env_of_def)
  from no_change_no_persistence[OF h1 h2 run_all_patched] h1 h2 run_all_patched
  show ?thesis by simp
qed

theorem overwrite_only_after_backup_witness:
  "app_asar (fst (snd (main_run (args_of False) (env_of doc_interact True) (patches ascii_only) files0)))
     \<noteq> app_asar files0
   \<and> (\<exists>js text1 sts packed pre post.
         asar_extract (env_of doc_interact True) (app_asar files0) = Inr js \<and>
         run_rules (patches ascii_only) False js [] = Inr (text1, sts) \<and>
         node_check (env_of doc_interact True) text1 \<and>
         asar_pack (env_of doc_interact True) text1 = Some packed \<and>
         backup_failure (env_of doc_interact True) = None \<and>
         backup_asar (fst (snd (main_run (args_of False) (env_of doc_interact True) (patches ascii_only) files0)))
           = Some (app_asar files0) \<and>
         app_asar (fst (snd (main_run (args_of False) (env_of doc_interact True) (patches ascii_only) files0)))
           = packed \<and>
         snd (snd (main_run (args_of False) (env_of doc_interact True) (patches ascii_only) files0))
           = pre @ WriteBackup (app_asar files0) # WriteArchive packed # post \<and>
         (\<forall>b. WriteArchive b \<notin> set pre))
   \<and> fst (main_run (args_of False) (env_of doc_interact False) (patches ascii_only) files0)
       = Inl (ToolFailed ''npx -y asar pack'')
   \<and> app_asar (fst (snd (main_run (args_of False) (env_of doc_interact False) (patches ascii_only) files0)))
       = app_asar files0
   \<and> backup_asar (fst (snd (main_run (args_of False) (env_of doc_interact False) (patches ascii_only) files0)))
       = backup_asar files0"
proof -
  let ?ok = "main_run (args_of False) (env_of doc_interact True) (patches ascii_only) files0"
  let ?bad = "main_run (args_of False) (env_of doc_interact False) (patches ascii_only) files0"
  have ok: "?ok = (fst ?ok, fst (snd ?ok), snd (snd ?ok))" by simp
  have bad: "?bad = (fst ?bad, fst (snd ?bad), snd (snd ?bad))" by simp
  have changed: "app_asar (fst (snd ?ok)) \<noteq> app_asar files0"
    by (simp add: main_run_def main_persist_def args_of_def env_of_def files0_def
          run_interact_real doc_interact_changed Let_def)
  have failed: "fst ?bad = Inl (ToolFailed ''npx -y asar pack'')"
    by (simp add: main_run_def main_persist_def args_of_def env_of_def files0_def
          run_interact_real doc_interact_changed Let_def)
  note good = overwrite_only_after_backup[OF ok]
  note ex = mp[OF good[THEN conjunct1] disjI2[OF changed]]
  note fails = overwrite_only_after_backup[OF bad]
  have pre2: "fst ?bad = Inl (ToolFailed ''npx -y asar pack'')
              \<and> (\<forall>d. ToolFailed ''npx -y asar pack'' \<noteq> RefusingToOverwrite d)"
    using failed by simp
  have pre3: "fst ?bad = Inl (ToolFailed ''npx -y asar pack'')
              \<and> ((\<exists>x. ToolFailed ''npx -y asar pack'' = RuleFailed x)
                  \<or> (\<exists>c. ToolFailed ''npx -y asar pack'' = ToolFailed c))"
    using failed by simp
  note c2 = mp[OF spec[OF fails[THEN conjunct2, THEN conjunct1]] pre2]
  note c3 = mp[OF spec[OF fails[THEN conjunct2, THEN conjunct2]] pre3]
  show ?thesis
    by (rule conjI[OF changed conjI[OF ex conjI[OF failed
          conjI[OF c2[THEN conjunct1] c3[THEN conjunct1]]]]])
qed

text \<open>
  C8.  The claim that the report of a failed run holds the status of every rule before the
  failing one does not hold: \<^verbatim>\<open>main\<close> prints the statuses only after the loop over the rules
  has ended.  On a bundle that the first rule patches and the second rule does not
  recognise, the run ends with the second rule's error and has printed nothing.
\<close>

theorem failure_report_counterexample:
  "run_rules [(exploration_continuation_drop_reasoning ascii_only)] False doc_push []
     = Inr (doc_patched, [(''exploration_continuation_drop_reasoning'', ''applied'')])
   \<and> main_run (args_of False) (env_of doc_push True) (patches ascii_only) files0
       = (Inl (RuleFailed (ExpectedReplacements ''exploration_no_autocollapse_on_finish'' 1 0)),
          files0, [Extract])
   \<and> Print ''exploration_continuation_drop_reasoning: applied''
       \<notin> set (snd (snd (main_run (args_of False) (env_of doc_push True) (patches ascii_only) files0)))"
proof -
  have m: "main_run (args_of False) (env_of doc_push True) (patches ascii_only) files0
       = (Inl (RuleFailed (ExpectedReplacements ''exploration_no_autocollapse_on_finish'' 1 0)),
          files0, [Extract])"
    by (simp add: main_run_def args_of_def env_of_def run_push_all)
  show ?thesis unfolding m using run_push_first by simp
qed

theorem rule_failure_aborts_witness:
  "asar_extract (env_of doc_push True) (app_asar files0) = Inr doc_push
   \<and> run_rules [(exploration_continuation_drop_reasoning ascii_only)] (dry_run (args_of False)) doc_push []
       = Inr (doc_patched, [(''exploration_continuation_drop_reasoning'', ''applied'')])
   \<and> apply_rule doc_patched (exploration_no_autocollapse_on_finish ascii_only) (dry_run (args_of False))
       = Inl (ExpectedReplacements ''exploration_no_autocollapse_on_finish'' 1 0)
   \<and> main_run (args_of False) (env_of doc_push True)
        ([(exploration_continuation_drop_reasoning ascii_only)] @ (exploration_no_autocollapse_on_finish ascii_only)
           # [(show_reasoning_items_in_log ascii_only), (reasoning_no_autocollapse_on_finish ascii_only),
              (reasoning_autoscroll_user_scroll_flag ascii_only)])
        files0
       = (Inl (RuleFailed (ExpectedReplacements ''exploration_no_autocollapse_on_finish'' 1 0)),
          files0, [Extract])"
proof -
  have d: "dry_run (args_of False) = False" by (simp add: args_of_def)
  have h1: "asar_extract (env_of doc_push True) (app_asar files0) = Inr doc_push"
    by (simp add: env_of_def)
  have h2: "run_rules [(exploration_continuation_drop_reasoning ascii_only)] (dry_run (args_of False))
              doc_push []
            = Inr (doc_patched, [(''exploration_continuation_drop_reasoning'', ''applied'')])"
    unfolding d by (rule run_push_first)
  have h3: "apply_rule doc_patched (exploration_no_autocollapse_on_finish ascii_only) (dry_run (args_of False))
            = Inl (ExpectedReplacements ''exploration_no_autocollapse_on_finish'' 1 0)"
    unfolding d by code_simp
  from rule_failure_aborts[OF h1 h2 h3] h1 h2 h3 show ?thesis by simp
qed




end
